theory Spec2Isabelle
  imports Main
begin

section \<open>The service registration script \<open>create-ranger-services.py\<close>\<close>

text \<open>
  The script builds eight \<open>RangerService\<close> objects, puts them in the list \<open>services\<close>
  and, for each of them in turn, asks the Ranger server through the client library whether
  a service of that name exists and creates it when it does not. Everything the script
  does to the outside world is a call of \<open>ranger_client.get_service\<close>, a call of
  \<open>ranger_client.create_service\<close> or a \<open>print\<close>. The embedding keeps the client abstract
  (any pair of operations over any hidden state) and records every such effect, in order,
  in a trace.
\<close>

subsection \<open>Data\<close>

text \<open>
  \<open>RangerService({'name': ..., 'type': ..., 'configs': {...}})\<close>: the three attributes the
  script sets. \<open>configs\<close> is a dict literal, kept as an association list in the written
  order.
\<close>

record RangerService =
  name :: string
  type :: string
  configs :: "(string \<times> string) list"

text \<open>
  What a client call raises. The library signals a failure by raising an instance of
  Python's class \<open>Exception\<close> (a \<open>RangerServiceException\<close>, an error of the HTTP layer, a
  \<open>JSONDecodeError\<close>, ...); a call can also be left by a raise that is not an instance of
  \<open>Exception\<close> (\<open>KeyboardInterrupt\<close>, \<open>SystemExit\<close> and the other direct subclasses of
  \<open>BaseException\<close>). The script tells \<open>JSONDecodeError\<close> apart in one handler and the
  instances of \<open>Exception\<close> in the other, and of an exception object it uses only \<open>str(e)\<close>,
  the text each constructor carries.
\<close>

datatype exn = JSONDecodeError string | OtherException string | NonException string

fun str :: "exn \<Rightarrow> string" where
  "str (JSONDecodeError m) = m"
| "str (OtherException m) = m"
| "str (NonException m) = m"

text \<open>\<open>isinstance(e, Exception)\<close>: what a handler \<open>except Exception\<close> catches.\<close>

fun isinstance_Exception :: "exn \<Rightarrow> bool" where
  "isinstance_Exception (JSONDecodeError m) = True"
| "isinstance_Exception (OtherException m) = True"
| "isinstance_Exception (NonException m) = False"

text \<open>
  The client: \<open>get_service(name)\<close> returns a service or \<open>None\<close> (the library's answer to
  HTTP 404) or raises; \<open>create_service(service)\<close> returns the created service or raises.
  Both may change the hidden state \<open>'c\<close> (the server, the connection), on which every later
  answer may depend.
\<close>

record 'c RangerClient =
  get_service :: "string \<Rightarrow> 'c \<Rightarrow> (exn + RangerService option) \<times> 'c"
  create_service :: "RangerService \<Rightarrow> 'c \<Rightarrow> (exn + RangerService) \<times> 'c"

text \<open>The observable effects, each client call with the outcome it had.\<close>

datatype event =
    Lookup string "exn + RangerService option"
  | Create RangerService "exn + RangerService"
  | Print string

record 'c world =
  remote :: 'c
  trace :: "event list"

definition init :: "'c \<Rightarrow> 'c world" where
  "init c = \<lparr>remote = c, trace = []\<rparr>"

subsection \<open>The catalog\<close>

definition hdfs :: RangerService where
  "hdfs = \<lparr>name = ''dev_hdfs'', type = ''hdfs'',
     configs = [(''username'', ''hdfs''), (''password'', ''hdfs''),
                (''fs.default.name'', ''hdfs://ranger-hadoop:9000''),
                (''hadoop.security.authentication'', ''simple''),
                (''hadoop.security.authorization'', ''true'')]\<rparr>"

definition hive :: RangerService where
  "hive = \<lparr>name = ''dev_hive'', type = ''hive'',
     configs = [(''username'', ''hive''), (''password'', ''hive''),
                (''jdbc.driverClassName'', ''org.apache.hive.jdbc.HiveDriver''),
                (''jdbc.url'', ''jdbc:hive2://ranger-hive:10000''),
                (''hadoop.security.authorization'', ''true'')]\<rparr>"

definition kafka :: RangerService where
  "kafka = \<lparr>name = ''dev_kafka'', type = ''kafka'',
     configs = [(''username'', ''kafka''), (''password'', ''kafka''),
                (''zookeeper.connect'', ''ranger-zk.example.com:2181'')]\<rparr>"

definition knox :: RangerService where
  "knox = \<lparr>name = ''dev_knox'', type = ''knox'',
     configs = [(''username'', ''knox''), (''password'', ''knox''),
                (''knox.url'', ''https://ranger-knox:8443'')]\<rparr>"

definition yarn :: RangerService where
  "yarn = \<lparr>name = ''dev_yarn'', type = ''yarn'',
     configs = [(''username'', ''yarn''), (''password'', ''yarn''),
                (''yarn.url'', ''http://ranger-hadoop:8088'')]\<rparr>"

definition hbase :: RangerService where
  "hbase = \<lparr>name = ''dev_hbase'', type = ''hbase'',
     configs = [(''username'', ''hbase''), (''password'', ''hbase''),
                (''hadoop.security.authentication'', ''simple''),
                (''hbase.security.authentication'', ''simple''),
                (''hadoop.security.authorization'', ''true''),
                (''hbase.zookeeper.property.clientPort'', ''2181''),
                (''hbase.zookeeper.quorum'', ''ranger-zk''),
                (''zookeeper.znode.parent'', ''/hbase'')]\<rparr>"

definition kms :: RangerService where
  "kms = \<lparr>name = ''dev_kms'', type = ''kms'',
     configs = [(''username'', ''keyadmin''), (''password'', ''rangerR0cks!''),
                (''provider'', ''http://ranger-kms:9292'')]\<rparr>"

definition trino :: RangerService where
  "trino = \<lparr>name = ''dev_trino'', type = ''trino'',
     configs = [(''username'', ''trino''), (''password'', ''trino''),
                (''jdbc.driverClassName'', ''io.trino.jdbc.TrinoDriver''),
                (''jdbc.url'', ''jdbc:trino://ranger-trino:8080'')]\<rparr>"

definition services :: "RangerService list" where
  "services = [hdfs, yarn, hive, hbase, kafka, knox, kms, trino]"

subsection \<open>The existence check\<close>

text \<open>
  \<^verbatim>\<open>
  def service_not_exists(service):
      try:
          svc = ranger_client.get_service(service.name)
      except JSONDecodeError:
          return 1
      return 0 if svc is not None else 1
  \<close>
  One call of \<open>get_service\<close>; a \<open>JSONDecodeError\<close> becomes the answer 1, anything else
  that is raised leaves the function as it came.
\<close>

definition service_not_exists ::
  "'c RangerClient \<Rightarrow> RangerService \<Rightarrow> 'c world \<Rightarrow> (exn + int) \<times> 'c world" where
  "service_not_exists ranger_client service w =
     (case get_service ranger_client (name service) (remote w) of
        (r, c') \<Rightarrow>
          let w' = w\<lparr>remote := c', trace := trace w @ [Lookup (name service) r]\<rparr> in
          (case r of
             Inl e \<Rightarrow>
               (case e of
                  JSONDecodeError m \<Rightarrow> (Inr 1, w')
                | OtherException m \<Rightarrow> (Inl e, w')
                | NonException m \<Rightarrow> (Inl e, w'))
           | Inr svc \<Rightarrow> (Inr (if svc \<noteq> None then 0 else 1), w')))"

subsection \<open>The registration loop\<close>

definition print :: "string \<Rightarrow> 'c world \<Rightarrow> 'c world" where
  "print line w = w\<lparr>trace := trace w @ [Print line]\<rparr>"

text \<open>
  The body of the \<open>try\<close> block:
  \<^verbatim>\<open>
  if service_not_exists(service):
      ranger_client.create_service(service)
      print(f" {service.name} service created!")
  \<close>
  An exception of either call ends the block at once.
\<close>

definition check_and_create ::
  "'c RangerClient \<Rightarrow> RangerService \<Rightarrow> 'c world \<Rightarrow> (exn + unit) \<times> 'c world" where
  "check_and_create ranger_client service w =
     (case service_not_exists ranger_client service w of
        (Inl e, w1) \<Rightarrow> (Inl e, w1)
      | (Inr b, w1) \<Rightarrow>
          if b \<noteq> 0 then
            (case create_service ranger_client service (remote w1) of
               (r, c2) \<Rightarrow>
                 let w2 = w1\<lparr>remote := c2, trace := trace w1 @ [Create service r]\<rparr> in
                 (case r of
                    Inl e \<Rightarrow> (Inl e, w2)
                  | Inr created \<Rightarrow>
                      (Inr (), print ('' '' @ name service @ '' service created!'') w2)))
          else (Inr (), w1))"

text \<open>
  One iteration of the loop, the \<open>try\<close> with its handler:
  \<^verbatim>\<open>
  except Exception as e:
      print(f"An exception occured: {e}")
  \<close>
  The handler is entered for an instance of \<open>Exception\<close>; any other raise leaves the
  iteration.
\<close>

definition process_service ::
  "'c RangerClient \<Rightarrow> RangerService \<Rightarrow> 'c world \<Rightarrow> (exn + unit) \<times> 'c world" where
  "process_service ranger_client service w =
     (case check_and_create ranger_client service w of
        (Inl e, w') \<Rightarrow>
          if isinstance_Exception e
          then (Inr (), print (''An exception occured: '' @ str e) w')
          else (Inl e, w')
      | (Inr u, w') \<Rightarrow> (Inr u, w'))"

text \<open>
  \<open>for service in services: ...\<close>, for any list: an exception that leaves an iteration
  leaves the loop, and the remaining elements are not visited.
\<close>

fun for_loop ::
  "('a \<Rightarrow> 'c world \<Rightarrow> (exn + unit) \<times> 'c world) \<Rightarrow> 'a list \<Rightarrow> 'c world \<Rightarrow> (exn + unit) \<times> 'c world"
  where
  "for_loop body [] w = (Inr (), w)"
| "for_loop body (x # xs) w =
     (case body x w of
        (Inl e, w') \<Rightarrow> (Inl e, w')
      | (Inr u, w') \<Rightarrow> for_loop body xs w')"

definition register_all ::
  "'c RangerClient \<Rightarrow> RangerService list \<Rightarrow> 'c world \<Rightarrow> (exn + unit) \<times> 'c world" where
  "register_all ranger_client catalog w = for_loop (process_service ranger_client) catalog w"

text \<open>The script: the loop over \<open>services\<close>, started with nothing called and nothing printed.\<close>

definition script :: "'c RangerClient \<Rightarrow> 'c \<Rightarrow> (exn + unit) \<times> 'c world" where
  "script ranger_client c = register_all ranger_client services (init c)"

subsection \<open>Reading a trace\<close>

fun lookups_of :: "event list \<Rightarrow> string list" where
  "lookups_of [] = []"
| "lookups_of (Lookup n r # evs) = n # lookups_of evs"
| "lookups_of (ev # evs) = lookups_of evs"

fun creations_of :: "event list \<Rightarrow> RangerService list" where
  "creations_of [] = []"
| "creations_of (Create s r # evs) = s # creations_of evs"
| "creations_of (ev # evs) = creations_of evs"

fun stdout_of :: "event list \<Rightarrow> string list" where
  "stdout_of [] = []"
| "stdout_of (Print line # evs) = line # stdout_of evs"
| "stdout_of (ev # evs) = stdout_of evs"

text \<open>
  The attempts of a run, in the order they were made: a lookup by name (\<open>Inl\<close>) or the
  creation of a service (\<open>Inr\<close>); and the answers the lookups got.
\<close>

fun attempts_of :: "event list \<Rightarrow> (string + RangerService) list" where
  "attempts_of [] = []"
| "attempts_of (Lookup n r # evs) = Inl n # attempts_of evs"
| "attempts_of (Create s r # evs) = Inr s # attempts_of evs"
| "attempts_of (Print line # evs) = attempts_of evs"

fun lookup_answers :: "event list \<Rightarrow> (exn + RangerService option) list" where
  "lookup_answers [] = []"
| "lookup_answers (Lookup n r # evs) = r # lookup_answers evs"
| "lookup_answers (ev # evs) = lookup_answers evs"

text \<open>What the client answered, call by call: the run's only input.\<close>

datatype response =
    LookupResult "exn + RangerService option"
  | CreateResult "exn + RangerService"

fun responses_of :: "event list \<Rightarrow> response list" where
  "responses_of [] = []"
| "responses_of (Lookup n r # evs) = LookupResult r # responses_of evs"
| "responses_of (Create s r # evs) = CreateResult r # responses_of evs"
| "responses_of (Print line # evs) = responses_of evs"

subsection \<open>A stand-in for the server\<close>

text \<open>
  A client for concrete runs: the hidden state is the list of services the server has
  registered; \<open>get_service\<close> finds a service by name (\<open>None\<close> when there is none),
  \<open>create_service\<close> appends it. \<open>lookup_fault\<close> and \<open>create_fault\<close> name the services
  for which a call raises, and what.
\<close>

definition fake_client ::
  "(string \<Rightarrow> exn option) \<Rightarrow> (string \<Rightarrow> exn option) \<Rightarrow> (RangerService list) RangerClient" where
  "fake_client lookup_fault create_fault =
     \<lparr>get_service = (\<lambda>n reg.
        case lookup_fault n of
          Some e \<Rightarrow> (Inl e, reg)
        | None \<Rightarrow> (Inr (find (\<lambda>s. name s = n) reg), reg)),
      create_service = (\<lambda>s reg.
        case create_fault (name s) of
          Some e \<Rightarrow> (Inl e, reg)
        | None \<Rightarrow> (Inr s, reg @ [s]))\<rparr>"

text \<open>Fault tables: no call fails; the calls for one name fail with one exception.\<close>

definition no_fault :: "string \<Rightarrow> exn option" where
  "no_fault n = None"

definition fault_on :: "string \<Rightarrow> exn \<Rightarrow> string \<Rightarrow> exn option" where
  "fault_on n e m = (if m = n then Some e else None)"

text \<open>A server on which every call goes through.\<close>

definition healthy_client :: "(RangerService list) RangerClient" where
  "healthy_client = fake_client no_fault no_fault"

section \<open>Properties\<close>

subsection \<open>Trace projections\<close>

lemma lookups_of_append: "lookups_of (xs @ ys) = lookups_of xs @ lookups_of ys"
  by (induction xs rule: lookups_of.induct) simp_all

lemma creations_of_append: "creations_of (xs @ ys) = creations_of xs @ creations_of ys"
  by (induction xs rule: creations_of.induct) simp_all

lemma stdout_of_append: "stdout_of (xs @ ys) = stdout_of xs @ stdout_of ys"
  by (induction xs rule: stdout_of.induct) simp_all

lemma responses_of_append: "responses_of (xs @ ys) = responses_of xs @ responses_of ys"
  by (induction xs rule: responses_of.induct) simp_all

lemma attempts_of_append: "attempts_of (xs @ ys) = attempts_of xs @ attempts_of ys"
  by (induction xs rule: attempts_of.induct) simp_all

lemma lookup_answers_append: "lookup_answers (xs @ ys) = lookup_answers xs @ lookup_answers ys"
  by (induction xs rule: lookup_answers.induct) simp_all

subsection \<open>The steps of the loop\<close>

lemma init_simps: "remote (init c) = c" "trace (init c) = []"
  by (simp_all add: init_def)

lemma service_not_exists_eq:
  assumes "get_service cl (name s) (remote w) = (r, c')"
  shows "service_not_exists cl s w =
     ((case r of
         Inl e \<Rightarrow> (case e of JSONDecodeError m \<Rightarrow> Inr 1 | OtherException m \<Rightarrow> Inl e
                   | NonException m \<Rightarrow> Inl e)
       | Inr svc \<Rightarrow> Inr (if svc \<noteq> None then 0 else 1)),
      w\<lparr>remote := c', trace := trace w @ [Lookup (name s) r]\<rparr>)"
  using assms by (simp add: service_not_exists_def Let_def split: sum.splits exn.splits)

text \<open>
  The \<open>try\<close> block, by the two answers: \<open>absent r\<close> is the lookup answer on which the check
  returns 1.
\<close>

lemma check_and_create_eq:
  assumes "get_service cl (name s) (remote w) = (r, c1)"
      and "create_service cl s c1 = (cr, c2)"
  shows "check_and_create cl s w =
     (if r = Inr None \<or> (\<exists>m. r = Inl (JSONDecodeError m))
      then (case cr of
              Inl e' \<Rightarrow> (Inl e', w\<lparr>remote := c2,
                 trace := trace w @ [Lookup (name s) r, Create s cr]\<rparr>)
            | Inr created \<Rightarrow> (Inr (), w\<lparr>remote := c2, trace := trace w @
                 [Lookup (name s) r, Create s cr, Print ('' '' @ name s @ '' service created!'')]\<rparr>))
      else (case r of
              Inl e \<Rightarrow> (Inl e, w\<lparr>remote := c1, trace := trace w @ [Lookup (name s) r]\<rparr>)
            | Inr svc \<Rightarrow> (Inr (), w\<lparr>remote := c1, trace := trace w @ [Lookup (name s) r]\<rparr>)))"
  using assms
  by (auto simp: check_and_create_def service_not_exists_eq [OF assms(1)] print_def Let_def
      split: sum.splits exn.splits option.splits)

lemma process_service_eq:
  assumes "get_service cl (name s) (remote w) = (r, c1)"
      and "create_service cl s c1 = (cr, c2)"
  shows "process_service cl s w =
     (if r = Inr None \<or> (\<exists>m. r = Inl (JSONDecodeError m))
      then (case cr of
              Inl e' \<Rightarrow>
                if isinstance_Exception e'
                then (Inr (), w\<lparr>remote := c2, trace := trace w @
                   [Lookup (name s) r, Create s cr, Print (''An exception occured: '' @ str e')]\<rparr>)
                else (Inl e', w\<lparr>remote := c2,
                   trace := trace w @ [Lookup (name s) r, Create s cr]\<rparr>)
            | Inr created \<Rightarrow> (Inr (), w\<lparr>remote := c2, trace := trace w @
                 [Lookup (name s) r, Create s cr, Print ('' '' @ name s @ '' service created!'')]\<rparr>))
      else (case r of
              Inl e \<Rightarrow>
                if isinstance_Exception e
                then (Inr (), w\<lparr>remote := c1, trace := trace w @
                   [Lookup (name s) r, Print (''An exception occured: '' @ str e)]\<rparr>)
                else (Inl e, w\<lparr>remote := c1, trace := trace w @ [Lookup (name s) r]\<rparr>)
            | Inr svc \<Rightarrow> (Inr (), w\<lparr>remote := c1, trace := trace w @ [Lookup (name s) r]\<rparr>)))"
  by (auto simp: process_service_def check_and_create_eq [OF assms] print_def
      split: sum.splits)


lemma register_all_Nil: "register_all cl [] w = (Inr (), w)"
  by (simp add: register_all_def)

lemma register_all_Cons:
  "register_all cl (s # catalog) w =
     (if fst (process_service cl s w) = Inr ()
      then register_all cl catalog (snd (process_service cl s w))
      else process_service cl s w)"
  by (cases "process_service cl s w") (auto simp: register_all_def split: sum.splits)

lemma register_all_single: "register_all cl [s] w = process_service cl s w"
  by (cases "process_service cl s w") (auto simp: register_all_def split: sum.splits)


lemma register_all_append:
  assumes "fst (register_all cl xs w) = Inr ()"
  shows "register_all cl (xs @ ys) w = register_all cl ys (snd (register_all cl xs w))"
  using assms
proof (induction xs arbitrary: w)
  case Nil
  show ?case by (simp add: register_all_Nil)
next
  case (Cons x xs)
  show ?case
  proof (cases "fst (process_service cl x w) = Inr ()")
    case True
    with Cons.prems have "fst (register_all cl xs (snd (process_service cl x w))) = Inr ()"
      by (simp add: register_all_Cons)
    from Cons.IH [OF this] True show ?thesis
      by (simp add: register_all_Cons)
  next
    case False
    with Cons.prems show ?thesis
      by (simp add: register_all_Cons)
  qed
qed

text \<open>
  When the loop over the first \<open>i\<close> descriptors has ended normally in the world \<open>w_i\<close>, the
  loop over the first \<open>i + 1\<close> is one more iteration from \<open>w_i\<close>, and the whole loop goes on
  from there as long as that iteration ends normally.
\<close>

lemma register_all_take_Suc:
  assumes "i < length catalog"
      and "register_all cl (take i catalog) w = (Inr (), w_i)"
  shows "register_all cl (take (Suc i) catalog) w = process_service cl (catalog ! i) w_i"
proof -
  have "register_all cl (take i catalog @ [catalog ! i]) w =
      register_all cl [catalog ! i] w_i"
    using register_all_append [of cl "take i catalog" w "[catalog ! i]"] assms(2) by simp
  then show ?thesis
    using assms(1) by (simp add: take_Suc_conv_app_nth register_all_single)
qed


subsection \<open>Framing: a run does not read the trace\<close>

lemma process_service_frame:
  "trace (snd (process_service cl s w)) =
     trace w @ trace (snd (process_service cl s (init (remote w))))"
  "remote (snd (process_service cl s w)) = remote (snd (process_service cl s (init (remote w))))"
  "fst (process_service cl s w) = fst (process_service cl s (init (remote w)))"
proof -
  obtain r c1 where g: "get_service cl (name s) (remote w) = (r, c1)"
    by (cases "get_service cl (name s) (remote w)")
  obtain cr c2 where c: "create_service cl s c1 = (cr, c2)"
    by (cases "create_service cl s c1")
  have g': "get_service cl (name s) (remote (init (remote w))) = (r, c1)"
    using g by (simp add: init_simps)
  note eqs = process_service_eq [OF g c] process_service_eq [OF g' c]
  show "trace (snd (process_service cl s w)) =
     trace w @ trace (snd (process_service cl s (init (remote w))))"
    by (simp add: eqs init_simps split: sum.splits)
  show "remote (snd (process_service cl s w)) =
     remote (snd (process_service cl s (init (remote w))))"
    by (simp add: eqs init_simps split: sum.splits)
  show "fst (process_service cl s w) = fst (process_service cl s (init (remote w)))"
    by (simp add: eqs init_simps split: sum.splits)
qed

lemma register_all_frame:
  "trace (snd (register_all cl catalog w)) =
     trace w @ trace (snd (register_all cl catalog (init (remote w)))) \<and>
   remote (snd (register_all cl catalog w)) =
     remote (snd (register_all cl catalog (init (remote w)))) \<and>
   fst (register_all cl catalog w) = fst (register_all cl catalog (init (remote w)))"
proof (induction catalog arbitrary: w)
  case Nil
  show ?case by (simp add: register_all_Nil init_simps)
next
  case (Cons s catalog)
  let ?w1 = "snd (process_service cl s w)"
  let ?v1 = "snd (process_service cl s (init (remote w)))"
  have r: "remote ?v1 = remote ?w1"
    by (rule process_service_frame(2) [symmetric])
  have t: "trace ?w1 = trace w @ trace ?v1"
    by (rule process_service_frame(1))
  have f: "fst (process_service cl s (init (remote w))) = fst (process_service cl s w)"
    by (rule process_service_frame(3) [symmetric])
  show ?case
    using Cons.IH [of ?w1] Cons.IH [of ?v1] r t f
    by (simp add: register_all_Cons)
qed

lemma trace_register_all_subset:
  "set (trace w) \<subseteq> set (trace (snd (register_all cl catalog w)))"
  using register_all_frame [of cl catalog w] by simp

lemma trace_process_service_subset:
  "set (trace (snd (process_service cl s w))) \<subseteq>
     set (trace (snd (register_all cl (s # catalog) w)))"
  by (simp add: register_all_Cons trace_register_all_subset)

lemma register_all_init_Cons:
  "trace (snd (register_all cl (s # catalog) (init c))) =
     trace (snd (process_service cl s (init c))) @
     (if fst (process_service cl s (init c)) = Inr ()
      then trace (snd (register_all cl catalog (init (remote (snd (process_service cl s (init c)))))))
      else [])"
  "fst (register_all cl (s # catalog) (init c)) =
     (if fst (process_service cl s (init c)) = Inr ()
      then fst (register_all cl catalog (init (remote (snd (process_service cl s (init c))))))
      else fst (process_service cl s (init c)))"
  using register_all_frame [of cl catalog "snd (process_service cl s (init c))"]
  by (simp_all add: register_all_Cons)

subsection \<open>One iteration, read from its two answers\<close>

lemma process_service_init:
  assumes "get_service cl (name s) c = (r, d)"
      and "create_service cl s d = (cr, e)"
  shows "attempts_of (trace (snd (process_service cl s (init c)))) =
       Inl (name s) # (if r = Inr None \<or> (\<exists>m. r = Inl (JSONDecodeError m)) then [Inr s] else [])"
    and "lookup_answers (trace (snd (process_service cl s (init c)))) = [r]"
    and "responses_of (trace (snd (process_service cl s (init c)))) =
       LookupResult r #
       (if r = Inr None \<or> (\<exists>m. r = Inl (JSONDecodeError m)) then [CreateResult cr] else [])"
    and "remote (snd (process_service cl s (init c))) =
       (if r = Inr None \<or> (\<exists>m. r = Inl (JSONDecodeError m)) then e else d)"
proof -
  have g: "get_service cl (name s) (remote (init c)) = (r, d)"
    using assms(1) by (simp add: init_simps)
  note eq = process_service_eq [OF g assms(2)]
  show "attempts_of (trace (snd (process_service cl s (init c)))) =
       Inl (name s) # (if r = Inr None \<or> (\<exists>m. r = Inl (JSONDecodeError m)) then [Inr s] else [])"
    by (simp add: eq init_simps split: sum.splits)
  show "lookup_answers (trace (snd (process_service cl s (init c)))) = [r]"
    by (simp add: eq init_simps split: sum.splits)
  show "responses_of (trace (snd (process_service cl s (init c)))) =
       LookupResult r #
       (if r = Inr None \<or> (\<exists>m. r = Inl (JSONDecodeError m)) then [CreateResult cr] else [])"
    by (simp add: eq init_simps split: sum.splits)
  show "remote (snd (process_service cl s (init c))) =
       (if r = Inr None \<or> (\<exists>m. r = Inl (JSONDecodeError m)) then e else d)"
    by (simp add: eq init_simps split: sum.splits)
qed

text \<open>
  The events of an iteration and the way it ends depend on the client only through the
  lookup answer and, when the answer makes the check return 1, the creation outcome.
\<close>

lemma process_service_determined:
  fixes cl1 :: "'c RangerClient" and cl2 :: "'d RangerClient"
  assumes "get_service cl1 (name s) c1 = (r, d1)"
      and "create_service cl1 s d1 = (cr1, e1)"
      and "get_service cl2 (name s) c2 = (r, d2)"
      and "create_service cl2 s d2 = (cr2, e2)"
      and "r = Inr None \<or> (\<exists>m. r = Inl (JSONDecodeError m)) \<Longrightarrow> cr1 = cr2"
  shows "trace (snd (process_service cl1 s (init c1))) =
         trace (snd (process_service cl2 s (init c2))) \<and>
     fst (process_service cl1 s (init c1)) = fst (process_service cl2 s (init c2))"
proof -
  have g1: "get_service cl1 (name s) (remote (init c1)) = (r, d1)"
    using assms(1) by (simp add: init_simps)
  have g2: "get_service cl2 (name s) (remote (init c2)) = (r, d2)"
    using assms(3) by (simp add: init_simps)
  show ?thesis
    using assms(5)
    by (simp add: process_service_eq [OF g1 assms(2)] process_service_eq [OF g2 assms(4)]
        init_simps split: sum.splits)
qed

lemma lookups_of_process_service:
  "lookups_of (trace (snd (process_service cl s w))) = lookups_of (trace w) @ [name s]"
proof -
  obtain r c1 where g: "get_service cl (name s) (remote w) = (r, c1)"
    by (cases "get_service cl (name s) (remote w)")
  obtain cr c2 where c: "create_service cl s c1 = (cr, c2)"
    by (cases "create_service cl s c1")
  show ?thesis
    by (simp add: process_service_eq [OF g c] lookups_of_append split: sum.splits)
qed

lemma lookups_of_register_all:
  assumes "fst (register_all cl catalog w) = Inr ()"
  shows "lookups_of (trace (snd (register_all cl catalog w))) =
     lookups_of (trace w) @ map name catalog"
  using assms
proof (induction catalog arbitrary: w)
  case Nil
  show ?case by (simp add: register_all_Nil)
next
  case (Cons s catalog)
  show ?case
  proof (cases "fst (process_service cl s w) = Inr ()")
    case True
    with Cons.prems have "fst (register_all cl catalog (snd (process_service cl s w))) = Inr ()"
      by (simp add: register_all_Cons)
    from Cons.IH [OF this] True show ?thesis
      by (simp add: register_all_Cons lookups_of_process_service)
  next
    case False
    with Cons.prems show ?thesis
      by (simp add: register_all_Cons)
  qed
qed


subsection \<open>Whole runs\<close>

lemma register_all_all_created:
  assumes "\<forall>n r. Lookup n r \<in> set (trace (snd (register_all cl catalog w))) \<longrightarrow> r = Inr None"
      and "\<forall>s r. Create s r \<in> set (trace (snd (register_all cl catalog w))) \<longrightarrow>
             (\<exists>created. r = Inr created)"
  shows "creations_of (trace (snd (register_all cl catalog w))) =
       creations_of (trace w) @ catalog \<and>
     stdout_of (trace (snd (register_all cl catalog w))) =
       stdout_of (trace w) @ map (\<lambda>s. '' '' @ name s @ '' service created!'') catalog"
  using assms
proof (induction catalog arbitrary: w)
  case Nil
  show ?case by (simp add: register_all_Nil)
next
  case (Cons s catalog)
  let ?w1 = "snd (process_service cl s w)"
  obtain r c1 where g: "get_service cl (name s) (remote w) = (r, c1)"
    by (cases "get_service cl (name s) (remote w)")
  obtain cr c2 where c: "create_service cl s c1 = (cr, c2)"
    by (cases "create_service cl s c1")
  have sub: "set (trace ?w1) \<subseteq> set (trace (snd (register_all cl (s # catalog) w)))"
    by (rule trace_process_service_subset)
  have "Lookup (name s) r \<in> set (trace ?w1)"
    by (simp add: process_service_eq [OF g c] split: sum.splits)
  with sub Cons.prems(1) have r: "r = Inr None"
    by blast
  then have "Create s cr \<in> set (trace ?w1)"
    by (simp add: process_service_eq [OF g c] split: sum.splits)
  with sub Cons.prems(2) obtain created where cr: "cr = Inr created"
    by blast
  have p: "process_service cl s w = (Inr (), w\<lparr>remote := c2, trace := trace w @
      [Lookup (name s) r, Create s cr, Print ('' '' @ name s @ '' service created!'')]\<rparr>)"
    by (simp add: process_service_eq [OF g c] r cr)
  then have step: "register_all cl (s # catalog) w = register_all cl catalog ?w1"
    by (simp add: register_all_Cons)
  have ih: "creations_of (trace (snd (register_all cl catalog ?w1))) =
       creations_of (trace ?w1) @ catalog \<and>
     stdout_of (trace (snd (register_all cl catalog ?w1))) =
       stdout_of (trace ?w1) @ map (\<lambda>s. '' '' @ name s @ '' service created!'') catalog"
    using Cons.prems by (intro Cons.IH) (simp_all only: step)
  show ?case
    using ih by (simp add: step p creations_of_append stdout_of_append)
qed

text \<open>
  The trace of a run and the way it ends are determined by the catalog and the answers of
  the client: two runs over the same catalog with the same answers have the same trace,
  whatever the clients and their hidden states are.
\<close>

lemma same_responses_same_trace:
  fixes cl1 :: "'c RangerClient" and cl2 :: "'d RangerClient"
  assumes "responses_of (trace (snd (register_all cl1 catalog (init c1)))) =
           responses_of (trace (snd (register_all cl2 catalog (init c2))))"
  shows "trace (snd (register_all cl1 catalog (init c1))) =
         trace (snd (register_all cl2 catalog (init c2))) \<and>
     fst (register_all cl1 catalog (init c1)) = fst (register_all cl2 catalog (init c2))"
  using assms
proof (induction catalog arbitrary: c1 c2)
  case Nil
  show ?case by (simp add: register_all_Nil init_simps)
next
  case (Cons s catalog)
  obtain r1 d1 where g1: "get_service cl1 (name s) c1 = (r1, d1)"
    by (cases "get_service cl1 (name s) c1")
  obtain cr1 e1 where k1: "create_service cl1 s d1 = (cr1, e1)"
    by (cases "create_service cl1 s d1")
  obtain r2 d2 where g2: "get_service cl2 (name s) c2 = (r2, d2)"
    by (cases "get_service cl2 (name s) c2")
  obtain cr2 e2 where k2: "create_service cl2 s d2 = (cr2, e2)"
    by (cases "create_service cl2 s d2")
  let ?P1 = "process_service cl1 s (init c1)"
  let ?P2 = "process_service cl2 s (init c2)"
  let ?R1 = "trace (snd (register_all cl1 catalog (init (remote (snd ?P1)))))"
  let ?R2 = "trace (snd (register_all cl2 catalog (init (remote (snd ?P2)))))"
  note resp1 = process_service_init(3) [OF g1 k1] and resp2 = process_service_init(3) [OF g2 k2]
  have prem: "responses_of (trace (snd ?P1)) @
        responses_of (if fst ?P1 = Inr () then ?R1 else []) =
      responses_of (trace (snd ?P2)) @
        responses_of (if fst ?P2 = Inr () then ?R2 else [])"
    using Cons.prems by (simp only: register_all_init_Cons(1) responses_of_append)
  have r: "r1 = r2"
    using prem by (simp add: resp1 resp2)
  have cr: "cr1 = cr2" if "r1 = Inr None \<or> (\<exists>m. r1 = Inl (JSONDecodeError m))"
    using prem that r by (simp add: resp1 resp2)
  have step: "trace (snd ?P1) = trace (snd ?P2) \<and> fst ?P1 = fst ?P2"
    using g1 k1 g2 [folded r] k2 cr by (rule process_service_determined)
  show ?case
  proof (cases "fst ?P1 = Inr ()")
    case True
    then have True2: "fst ?P2 = Inr ()"
      using step by simp
    have "responses_of ?R1 = responses_of ?R2"
      using prem True True2 step by simp
    then have "?R1 = ?R2 \<and>
        fst (register_all cl1 catalog (init (remote (snd ?P1)))) =
        fst (register_all cl2 catalog (init (remote (snd ?P2))))"
      by (rule Cons.IH)
    then show ?thesis
      using True True2 step by (simp add: register_all_init_Cons)
  next
    case False
    then have "fst ?P2 \<noteq> Inr ()"
      using step by simp
    with False step show ?thesis
      by (simp add: register_all_init_Cons)
  qed
qed

text \<open>
  The attempts of a run over any catalog: descriptor by descriptor in the order of the list,
  for each one reached its lookup first and then, exactly when the answer makes the check
  return 1, its creation.
\<close>

lemma attempts_of_register_all:
  "attempts_of (trace (snd (register_all cl catalog (init c)))) =
     concat (map (\<lambda>(s, r). Inl (name s) #
         (if r = Inr None \<or> (\<exists>m. r = Inl (JSONDecodeError m)) then [Inr s] else []))
       (zip catalog (lookup_answers (trace (snd (register_all cl catalog (init c)))))))"
proof (induction catalog arbitrary: c)
  case Nil
  show ?case by (simp add: register_all_Nil init_simps)
next
  case (Cons s catalog)
  obtain r d where g: "get_service cl (name s) c = (r, d)"
    by (cases "get_service cl (name s) c")
  obtain cr e where k: "create_service cl s d = (cr, e)"
    by (cases "create_service cl s d")
  note st = process_service_init(1,2) [OF g k]
  show ?case
    using Cons.IH [of "remote (snd (process_service cl s (init c)))"]
    by (simp add: register_all_init_Cons(1) attempts_of_append lookup_answers_append st)
qed

lemmas catalog_defs = services_def hdfs_def hive_def kafka_def knox_def yarn_def hbase_def
  kms_def trino_def

subsection \<open>The names and the order of the catalog\<close>

text \<open>
  C5, as stated: the names of the catalog, in catalog order, are \<open>dev_hdfs\<close>, \<open>dev_hive\<close>,
  \<open>dev_kafka\<close>, \<open>dev_knox\<close>, \<open>dev_yarn\<close>, \<open>dev_hbase\<close>, \<open>dev_kms\<close>, \<open>dev_trino\<close>. That is
  the order in which the script defines the eight objects, not the order of the list
  \<open>services\<close> it iterates over: the second entry of the list is \<open>yarn\<close>.
\<close>

theorem services_order_counterexample:
  "map name services \<noteq>
     [''dev_hdfs'', ''dev_hive'', ''dev_kafka'', ''dev_knox'',
      ''dev_yarn'', ''dev_hbase'', ''dev_kms'', ''dev_trino'']"
  by (simp add: catalog_defs)

text \<open>
  C5, amended: the catalog is a fixed sequence of exactly eight descriptors whose names, in
  catalog order, are \<open>dev_hdfs\<close>, \<open>dev_yarn\<close>, \<open>dev_hive\<close>, \<open>dev_hbase\<close>, \<open>dev_kafka\<close>,
  \<open>dev_knox\<close>, \<open>dev_kms\<close>, \<open>dev_trino\<close>, and the script makes its registration attempts in
  that order. Whatever the client answers, the sequence of all lookups and creations of a
  run is, entry by entry of the list and for as many entries as got a lookup answer: the
  lookup of the entry's name, followed by the creation of the entry exactly when the answer
  was \<open>None\<close> or a \<open>JSONDecodeError\<close>. A run that ends normally has looked up all eight names.
\<close>

theorem services_order:
  "length services = 8 \<and>
   map name services =
     [''dev_hdfs'', ''dev_yarn'', ''dev_hive'', ''dev_hbase'',
      ''dev_kafka'', ''dev_knox'', ''dev_kms'', ''dev_trino''] \<and>
   attempts_of (trace (snd (script cl c))) =
     concat (map (\<lambda>(s, r). Inl (name s) #
         (if r = Inr None \<or> (\<exists>m. r = Inl (JSONDecodeError m)) then [Inr s] else []))
       (zip services (lookup_answers (trace (snd (script cl c)))))) \<and>
   (fst (script cl c) = Inr () \<longrightarrow>
      lookups_of (trace (snd (script cl c))) = map name services)"
proof -
  have "attempts_of (trace (snd (script cl c))) =
     concat (map (\<lambda>(s, r). Inl (name s) #
         (if r = Inr None \<or> (\<exists>m. r = Inl (JSONDecodeError m)) then [Inr s] else []))
       (zip services (lookup_answers (trace (snd (script cl c))))))"
    unfolding script_def by (rule attempts_of_register_all)
  moreover have "fst (script cl c) = Inr () \<longrightarrow>
      lookups_of (trace (snd (script cl c))) = map name services"
    by (simp add: script_def lookups_of_register_all init_simps)
  moreover have "length services = 8"
    by (simp add: services_def)
  moreover have "map name services =
     [''dev_hdfs'', ''dev_yarn'', ''dev_hive'', ''dev_hbase'',
      ''dev_kafka'', ''dev_knox'', ''dev_kms'', ''dev_trino'']"
    by (simp add: catalog_defs)
  ultimately show ?thesis by blast
qed

theorem services_order_witness:
  "fst (script healthy_client [hdfs, kafka]) = Inr () \<and>
   lookup_answers (trace (snd (script healthy_client [hdfs, kafka]))) =
     [Inr (Some hdfs), Inr None, Inr None, Inr None, Inr (Some kafka), Inr None, Inr None,
      Inr None] \<and>
   attempts_of (trace (snd (script healthy_client [hdfs, kafka]))) =
     [Inl (name hdfs), Inl (name yarn), Inr yarn, Inl (name hive), Inr hive,
      Inl (name hbase), Inr hbase, Inl (name kafka), Inl (name knox), Inr knox,
      Inl (name kms), Inr kms, Inl (name trino), Inr trino] \<and>
   lookups_of (trace (snd (script healthy_client [hdfs, kafka]))) = map name services"
proof -
  have f: "fst (script healthy_client [hdfs, kafka]) = Inr ()"
    by code_simp
  have la: "lookup_answers (trace (snd (script healthy_client [hdfs, kafka]))) =
     [Inr (Some hdfs), Inr None, Inr None, Inr None, Inr (Some kafka), Inr None, Inr None,
      Inr None]"
    by code_simp
  show ?thesis
    using services_order [of healthy_client "[hdfs, kafka]"] f la
    by (simp add: services_def)
qed

text \<open>C6: the eight catalog entries have pairwise distinct names.\<close>

theorem services_names_distinct: "distinct (map name services)"
  by (simp add: catalog_defs)

subsection \<open>One lookup for each check\<close>

text \<open>
  C8: a call of \<open>service_not_exists\<close> issues exactly one lookup (the trace grows by one
  \<open>Lookup\<close> event for the service's name and the hidden state is the one that single call of
  \<open>get_service\<close> left), and an exception of the lookup that is not a \<open>JSONDecodeError\<close>
  is the exception \<open>service_not_exists\<close> raises: it is not turned into an answer.
\<close>

theorem service_not_exists_single_lookup:
  "trace (snd (service_not_exists cl s w)) =
     trace w @ [Lookup (name s) (fst (get_service cl (name s) (remote w)))] \<and>
   remote (snd (service_not_exists cl s w)) = snd (get_service cl (name s) (remote w)) \<and>
   (\<forall>e. fst (get_service cl (name s) (remote w)) = Inl e \<and> (\<forall>m. e \<noteq> JSONDecodeError m) \<longrightarrow>
        fst (service_not_exists cl s w) = Inl e)"
proof -
  obtain r c1 where g: "get_service cl (name s) (remote w) = (r, c1)"
    by (cases "get_service cl (name s) (remote w)")
  show ?thesis
    by (auto simp: service_not_exists_eq [OF g] g split: sum.splits exn.splits)
qed

theorem service_not_exists_single_lookup_witness:
  "fst (get_service (fake_client (\<lambda>n. Some (OtherException ''Connection refused'')) (\<lambda>n. None))
          (name hdfs) (remote (init []))) = Inl (OtherException ''Connection refused'') \<and>
   (\<forall>m. OtherException ''Connection refused'' \<noteq> JSONDecodeError m) \<and>
   fst (service_not_exists (fake_client (\<lambda>n. Some (OtherException ''Connection refused'')) (\<lambda>n. None))
          hdfs (init [])) = Inl (OtherException ''Connection refused'') \<and>
   trace (snd (service_not_exists (fake_client (\<lambda>n. Some (OtherException ''Connection refused'')) (\<lambda>n. None))
          hdfs (init []))) = [Lookup ''dev_hdfs'' (Inl (OtherException ''Connection refused''))]"
proof -
  let ?cl = "fake_client (\<lambda>n. Some (OtherException ''Connection refused'')) (\<lambda>n. None)"
  have h: "fst (get_service ?cl (name hdfs) (remote (init []))) =
      Inl (OtherException ''Connection refused'')"
    by (simp add: fake_client_def)
  have n: "\<forall>m. OtherException ''Connection refused'' \<noteq> JSONDecodeError m"
    by simp
  have nm: "name hdfs = ''dev_hdfs''"
    by (simp add: hdfs_def)
  show ?thesis
    using service_not_exists_single_lookup [of ?cl hdfs "init []"] h n nm
    by (simp add: init_simps)
qed

subsection \<open>Services the server already has\<close>

text \<open>
  C2: in a run over any catalog, when the loop has reached descriptor \<open>i\<close> (in the world
  \<open>w_i\<close>) and the lookup for it returns a service (not \<open>None\<close>, no exception), the existence
  check answers 0 and the whole processing of that descriptor is the lookup: the world after
  it is the world before it with the lookup's event and the state the lookup left, so
  \<open>create_service\<close> is not called for it.
\<close>

theorem present_never_created:
  assumes "i < length catalog"
      and "register_all cl (take i catalog) w = (Inr (), w_i)"
      and "get_service cl (name (catalog ! i)) (remote w_i) = (Inr (Some found), c1)"
  shows "fst (service_not_exists cl (catalog ! i) w_i) = Inr 0 \<and>
     snd (register_all cl (take (Suc i) catalog) w) =
       w_i\<lparr>remote := c1, trace := trace w_i @ [Lookup (name (catalog ! i)) (Inr (Some found))]\<rparr> \<and>
     creations_of (trace (snd (register_all cl (take (Suc i) catalog) w))) =
       creations_of (trace w_i)"
proof -
  obtain cr c2 where c: "create_service cl (catalog ! i) c1 = (cr, c2)"
    by (cases "create_service cl (catalog ! i) c1")
  have step: "register_all cl (take (Suc i) catalog) w = process_service cl (catalog ! i) w_i"
    by (rule register_all_take_Suc [OF assms(1,2)])
  have "fst (service_not_exists cl (catalog ! i) w_i) = Inr 0"
    by (simp add: service_not_exists_eq [OF assms(3)])
  moreover have "snd (register_all cl (take (Suc i) catalog) w) =
       w_i\<lparr>remote := c1, trace := trace w_i @ [Lookup (name (catalog ! i)) (Inr (Some found))]\<rparr>"
    by (simp add: step process_service_eq [OF assms(3) c])
  ultimately show ?thesis
    by (simp add: creations_of_append)
qed

theorem present_never_created_witness:
  "4 < length services \<and>
   fst (register_all healthy_client (take 4 services) (init [hdfs, kafka])) = Inr () \<and>
   get_service healthy_client (name (services ! 4))
     (remote (snd (register_all healthy_client (take 4 services) (init [hdfs, kafka])))) =
       (Inr (Some kafka), [hdfs, kafka, yarn, hive, hbase]) \<and>
   fst (service_not_exists healthy_client (services ! 4)
     (snd (register_all healthy_client (take 4 services) (init [hdfs, kafka])))) = Inr 0 \<and>
   creations_of (trace (snd (register_all healthy_client (take (Suc 4) services) (init [hdfs, kafka])))) =
     creations_of (trace (snd (register_all healthy_client (take 4 services) (init [hdfs, kafka]))))"
proof -
  have h1: "4 < length services"
    by (simp add: services_def)
  have f: "fst (register_all healthy_client (take 4 services) (init [hdfs, kafka])) = Inr ()"
    by code_simp
  then have h2: "register_all healthy_client (take 4 services) (init [hdfs, kafka]) =
      (Inr (), snd (register_all healthy_client (take 4 services) (init [hdfs, kafka])))"
    by (simp add: prod_eq_iff)
  have h3: "get_service healthy_client (name (services ! 4))
     (remote (snd (register_all healthy_client (take 4 services) (init [hdfs, kafka])))) =
       (Inr (Some kafka), [hdfs, kafka, yarn, hive, hbase])"
    by code_simp
  show ?thesis
    using present_never_created [OF h1 h2 h3] h1 f h3 by blast
qed

text \<open>
  C9: in a run over any catalog, when the loop has reached descriptor \<open>i\<close> (in the world
  \<open>w_i\<close>) and the existence check for it answers 0 (present, without raising), processing
  that descriptor prints nothing: standard output after it is standard output before it.
\<close>

theorem present_is_silent:
  assumes "i < length catalog"
      and "register_all cl (take i catalog) w = (Inr (), w_i)"
      and "fst (service_not_exists cl (catalog ! i) w_i) = Inr 0"
  shows "stdout_of (trace (snd (register_all cl (take (Suc i) catalog) w))) =
       stdout_of (trace w_i)"
proof -
  obtain r c1 where g: "get_service cl (name (catalog ! i)) (remote w_i) = (r, c1)"
    by (cases "get_service cl (name (catalog ! i)) (remote w_i)")
  obtain cr c2 where c: "create_service cl (catalog ! i) c1 = (cr, c2)"
    by (cases "create_service cl (catalog ! i) c1")
  have step: "register_all cl (take (Suc i) catalog) w = process_service cl (catalog ! i) w_i"
    by (rule register_all_take_Suc [OF assms(1,2)])
  from assms(3) obtain found where r: "r = Inr (Some found)"
    by (auto simp: service_not_exists_eq [OF g] split: sum.splits exn.splits if_splits)
  have "snd (register_all cl (take (Suc i) catalog) w) =
       w_i\<lparr>remote := c1, trace := trace w_i @ [Lookup (name (catalog ! i)) r]\<rparr>"
    using r by (simp add: step process_service_eq [OF g c])
  then show ?thesis
    by (simp add: stdout_of_append)
qed

theorem present_is_silent_witness:
  "4 < length services \<and>
   fst (register_all healthy_client (take 4 services) (init [hdfs, kafka])) = Inr () \<and>
   fst (service_not_exists healthy_client (services ! 4)
     (snd (register_all healthy_client (take 4 services) (init [hdfs, kafka])))) = Inr 0 \<and>
   stdout_of (trace (snd (register_all healthy_client (take (Suc 4) services) (init [hdfs, kafka])))) =
     stdout_of (trace (snd (register_all healthy_client (take 4 services) (init [hdfs, kafka]))))"
proof -
  have h1: "4 < length services"
    by (simp add: services_def)
  have f: "fst (register_all healthy_client (take 4 services) (init [hdfs, kafka])) = Inr ()"
    by code_simp
  then have h2: "register_all healthy_client (take 4 services) (init [hdfs, kafka]) =
      (Inr (), snd (register_all healthy_client (take 4 services) (init [hdfs, kafka])))"
    by (simp add: prod_eq_iff)
  have h3: "fst (service_not_exists healthy_client (services ! 4)
     (snd (register_all healthy_client (take 4 services) (init [hdfs, kafka])))) = Inr 0"
    by code_simp
  show ?thesis
    using present_is_silent [OF h1 h2 h3] h1 f h3 by blast
qed

subsection \<open>A lookup answer that cannot be parsed\<close>

text \<open>
  C3: when the lookup raises a \<open>JSONDecodeError\<close>, the existence check answers 1 (absent)
  and the creation is attempted, exactly as against a client whose lookup answers
  \<open>None\<close> (not found) and which is otherwise the same: the same creation call with the same
  outcome, the same output and the same state afterwards.
\<close>

theorem decode_error_is_absent:
  assumes "get_service cl (name s) (remote w) = (Inl (JSONDecodeError m), c1)"
      and "get_service cl' (name s) (remote w) = (Inr None, c1)"
      and "create_service cl' = create_service cl"
  shows "fst (service_not_exists cl s w) = Inr 1 \<and>
     fst (service_not_exists cl' s w) = Inr 1 \<and>
     creations_of (trace (snd (process_service cl s w))) = creations_of (trace w) @ [s] \<and>
     Create s (fst (create_service cl s c1)) \<in> set (trace (snd (process_service cl s w))) \<and>
     creations_of (trace (snd (process_service cl s w))) =
       creations_of (trace (snd (process_service cl' s w))) \<and>
     stdout_of (trace (snd (process_service cl s w))) =
       stdout_of (trace (snd (process_service cl' s w))) \<and>
     remote (snd (process_service cl s w)) = remote (snd (process_service cl' s w))"
proof -
  obtain cr c2 where c: "create_service cl s c1 = (cr, c2)"
    by (cases "create_service cl s c1")
  have c': "create_service cl' s c1 = (cr, c2)"
    using c assms(3) by simp
  note p = process_service_eq [OF assms(1) c] and p' = process_service_eq [OF assms(2) c']
  have "fst (service_not_exists cl s w) = Inr 1"
    by (simp add: service_not_exists_eq [OF assms(1)])
  moreover have "fst (service_not_exists cl' s w) = Inr 1"
    by (simp add: service_not_exists_eq [OF assms(2)])
  moreover have "creations_of (trace (snd (process_service cl s w))) =
      creations_of (trace w) @ [s]"
    by (simp add: p creations_of_append split: sum.splits)
  moreover have "Create s cr \<in> set (trace (snd (process_service cl s w)))"
    by (simp add: p split: sum.splits)
  moreover have "creations_of (trace (snd (process_service cl' s w))) =
      creations_of (trace w) @ [s]"
    by (simp add: p' creations_of_append split: sum.splits)
  moreover have "stdout_of (trace (snd (process_service cl s w))) =
      stdout_of (trace (snd (process_service cl' s w)))"
    by (simp add: p p' stdout_of_append split: sum.splits)
  moreover have "remote (snd (process_service cl s w)) =
      remote (snd (process_service cl' s w))"
    by (simp add: p p' split: sum.splits)
  ultimately show ?thesis
    using c by simp
qed

theorem decode_error_is_absent_witness:
  "get_service (fake_client (fault_on ''dev_hdfs'' (JSONDecodeError ''Expecting value'')) no_fault)
     (name hdfs) (remote (init [])) = (Inl (JSONDecodeError ''Expecting value''), []) \<and>
   get_service healthy_client (name hdfs) (remote (init [])) = (Inr None, []) \<and>
   fst (service_not_exists
     (fake_client (fault_on ''dev_hdfs'' (JSONDecodeError ''Expecting value'')) no_fault)
     hdfs (init [])) = Inr 1 \<and>
   creations_of (trace (snd (process_service
     (fake_client (fault_on ''dev_hdfs'' (JSONDecodeError ''Expecting value'')) no_fault)
     hdfs (init [])))) = [hdfs] \<and>
   stdout_of (trace (snd (process_service
     (fake_client (fault_on ''dev_hdfs'' (JSONDecodeError ''Expecting value'')) no_fault)
     hdfs (init [])))) = stdout_of (trace (snd (process_service healthy_client hdfs (init []))))"
proof -
  let ?cl = "fake_client (fault_on ''dev_hdfs'' (JSONDecodeError ''Expecting value'')) no_fault"
  have h1: "get_service ?cl (name hdfs) (remote (init [])) =
      (Inl (JSONDecodeError ''Expecting value''), [])"
    by (simp add: fake_client_def fault_on_def hdfs_def init_simps)
  have h2: "get_service healthy_client (name hdfs) (remote (init [])) = (Inr None, [])"
    by (simp add: healthy_client_def fake_client_def no_fault_def init_simps)
  have h3: "create_service healthy_client = create_service ?cl"
    by (simp add: healthy_client_def fake_client_def)
  show ?thesis
    using decode_error_is_absent [OF h1 h2 h3] h1 h2 by (simp add: init_simps)
qed

subsection \<open>Failures stay within their iteration\<close>




subsection \<open>What is printed\<close>

text \<open>
  C7, as stated: a successful creation prints the line \<open>dev_hdfs service created!\<close> for
  \<open>dev_hdfs\<close>. The format string of the script starts with a space, so on a server with
  nothing registered and no failing call the line printed for \<open>hdfs\<close> is
  \<open>\<^verbatim>\<open> dev_hdfs service created!\<close>\<close>, which is not the name followed by
  \<open>\<^verbatim>\<open> service created!\<close>\<close>.
\<close>

theorem created_line_counterexample:
  "creations_of (trace (snd (process_service healthy_client hdfs (init [])))) = [hdfs] \<and>
   stdout_of (trace (snd (process_service healthy_client hdfs (init [])))) =
     ['' dev_hdfs service created!''] \<and>
   '' dev_hdfs service created!'' \<noteq> name hdfs @ '' service created!''"
  by code_simp

text \<open>
  C7, amended: when the \<open>try\<close> block of a descriptor raises \<open>e\<close> and the handler catches it
  (\<open>e\<close> is an instance of \<open>Exception\<close>), processing the descriptor prints exactly one line,
  \<open>An exception occured: \<close> followed by the text of \<open>e\<close>; when the existence check answers 1
  and the creation call returns, it prints exactly one line: a space, the descriptor's name
  and \<open>\<^verbatim>\<open> service created!\<close>\<close>.
\<close>

theorem printed_lines:
  "(fst (check_and_create cl s w) = Inl e \<and> isinstance_Exception e \<longrightarrow>
      stdout_of (trace (snd (process_service cl s w))) =
        stdout_of (trace w) @ [''An exception occured: '' @ str e]) \<and>
   (fst (service_not_exists cl s w) = Inr 1 \<and>
    fst (create_service cl s (remote (snd (service_not_exists cl s w)))) = Inr created \<longrightarrow>
      stdout_of (trace (snd (process_service cl s w))) =
        stdout_of (trace w) @ ['' '' @ name s @ '' service created!''])"
proof -
  obtain r c1 where g: "get_service cl (name s) (remote w) = (r, c1)"
    by (cases "get_service cl (name s) (remote w)")
  obtain cr c2 where c: "create_service cl s c1 = (cr, c2)"
    by (cases "create_service cl s c1")
  show ?thesis
    using c
    by (auto simp: process_service_eq [OF g c] check_and_create_eq [OF g c]
        service_not_exists_eq [OF g] stdout_of_append
        split: sum.splits exn.splits option.splits if_splits)
qed

theorem printed_lines_witness:
  "fst (check_and_create
          (fake_client no_fault (fault_on ''dev_knox'' (OtherException ''500 Server Error'')))
          knox (init [])) = Inl (OtherException ''500 Server Error'') \<and>
   isinstance_Exception (OtherException ''500 Server Error'') \<and>
   stdout_of (trace (snd (process_service
          (fake_client no_fault (fault_on ''dev_knox'' (OtherException ''500 Server Error'')))
          knox (init [])))) = [''An exception occured: 500 Server Error''] \<and>
   fst (service_not_exists healthy_client knox (init [])) = Inr 1 \<and>
   fst (create_service healthy_client knox
          (remote (snd (service_not_exists healthy_client knox (init []))))) = Inr knox \<and>
   stdout_of (trace (snd (process_service healthy_client knox (init [])))) =
     ['' dev_knox service created!'']"
proof -
  let ?cl = "fake_client no_fault (fault_on ''dev_knox'' (OtherException ''500 Server Error''))"
  have f: "fst (check_and_create ?cl knox (init [])) = Inl (OtherException ''500 Server Error'')"
    by code_simp
  have i: "isinstance_Exception (OtherException ''500 Server Error'')"
    by simp
  have a: "fst (service_not_exists healthy_client knox (init [])) = Inr 1"
    by code_simp
  have k: "fst (create_service healthy_client knox
          (remote (snd (service_not_exists healthy_client knox (init []))))) = Inr knox"
    by code_simp
  have nm: "name knox = ''dev_knox''"
    by (simp add: knox_def)
  show ?thesis
    using printed_lines [of ?cl knox "init []" "OtherException ''500 Server Error''" knox]
      printed_lines [of healthy_client knox "init []" "OtherException ''500 Server Error''" knox]
      f i a k nm
    by (simp add: init_simps)
qed

subsection \<open>A run against an empty server\<close>

text \<open>
  C4: when every lookup of a run of the script answers \<open>None\<close> (not found) and every creation
  call of the run returns, the run issues exactly eight creation calls, one for each entry of
  \<open>services\<close> in the order of the list, and prints exactly eight lines, the "created" line
  of each entry in the same order.
\<close>

theorem empty_server_creates_all:
  assumes "\<forall>n r. Lookup n r \<in> set (trace (snd (script cl c))) \<longrightarrow> r = Inr None"
      and "\<forall>s r. Create s r \<in> set (trace (snd (script cl c))) \<longrightarrow> (\<exists>created. r = Inr created)"
  shows "creations_of (trace (snd (script cl c))) = services \<and>
     length (creations_of (trace (snd (script cl c)))) = 8 \<and>
     stdout_of (trace (snd (script cl c))) =
       map (\<lambda>s. '' '' @ name s @ '' service created!'') services \<and>
     length (stdout_of (trace (snd (script cl c)))) = 8"
proof -
  have "creations_of (trace (snd (script cl c))) = services \<and>
     stdout_of (trace (snd (script cl c))) =
       map (\<lambda>s. '' '' @ name s @ '' service created!'') services"
    using register_all_all_created [of cl services "init c"] assms
    by (simp add: script_def init_simps)
  moreover have "length services = 8"
    by (simp add: services_def)
  ultimately show ?thesis by simp
qed

theorem empty_server_creates_all_witness:
  "list_all (\<lambda>ev. case ev of Lookup n r \<Rightarrow> r = Inr None
                    | Create s r \<Rightarrow> \<not> isl r
                    | Print line \<Rightarrow> True)
     (trace (snd (script healthy_client []))) \<and>
   creations_of (trace (snd (script healthy_client []))) = services \<and>
   length (creations_of (trace (snd (script healthy_client [])))) = 8 \<and>
   stdout_of (trace (snd (script healthy_client []))) =
     map (\<lambda>s. '' '' @ name s @ '' service created!'') services \<and>
   length (stdout_of (trace (snd (script healthy_client [])))) = 8"
proof -
  have la: "list_all (\<lambda>ev. case ev of Lookup n r \<Rightarrow> r = Inr None
                           | Create s r \<Rightarrow> \<not> isl r
                           | Print line \<Rightarrow> True)
              (trace (snd (script healthy_client [])))"
    by code_simp
  have h1: "\<forall>n r. Lookup n r \<in> set (trace (snd (script healthy_client []))) \<longrightarrow> r = Inr None"
    using la by (auto simp: list_all_iff)
  have h2: "\<forall>s r. Create s r \<in> set (trace (snd (script healthy_client []))) \<longrightarrow>
      (\<exists>created. r = Inr created)"
  proof (intro allI impI)
    fix s r
    assume "Create s r \<in> set (trace (snd (script healthy_client [])))"
    with la have "\<not> isl r"
      by (auto simp: list_all_iff)
    then show "\<exists>created. r = Inr created"
      by (cases r) simp_all
  qed
  show ?thesis
    using empty_server_creates_all [OF h1 h2] la by blast
qed

subsection \<open>The run as a function of the client's answers\<close>

text \<open>
  C10: two runs of the script, against any two clients (of any kind, in any hidden state),
  in which the client gives the same sequence of answers (lookup results and creation
  outcomes, exceptions included) issue the same sequence of creation calls and print the
  same lines, and end in the same way.
\<close>

theorem responses_determine_run:
  fixes cl1 :: "'c RangerClient" and cl2 :: "'d RangerClient"
  assumes "responses_of (trace (snd (script cl1 c1))) = responses_of (trace (snd (script cl2 c2)))"
  shows "creations_of (trace (snd (script cl1 c1))) = creations_of (trace (snd (script cl2 c2))) \<and>
     stdout_of (trace (snd (script cl1 c1))) = stdout_of (trace (snd (script cl2 c2))) \<and>
     fst (script cl1 c1) = fst (script cl2 c2)"
proof -
  have "trace (snd (script cl1 c1)) = trace (snd (script cl2 c2)) \<and>
      fst (script cl1 c1) = fst (script cl2 c2)"
    using assms unfolding script_def by (rule same_responses_same_trace)
  then show ?thesis by simp
qed

theorem responses_determine_run_witness:
  "responses_of (trace (snd (script healthy_client []))) =
     responses_of (trace (snd (script
       (fake_client no_fault (fault_on ''dev_solr'' (OtherException ''403 Forbidden'')))
       [\<lparr>name = ''dev_solr'', type = ''solr'', configs = []\<rparr>]))) \<and>
   creations_of (trace (snd (script healthy_client []))) =
     creations_of (trace (snd (script
       (fake_client no_fault (fault_on ''dev_solr'' (OtherException ''403 Forbidden'')))
       [\<lparr>name = ''dev_solr'', type = ''solr'', configs = []\<rparr>]))) \<and>
   stdout_of (trace (snd (script healthy_client []))) =
     stdout_of (trace (snd (script
       (fake_client no_fault (fault_on ''dev_solr'' (OtherException ''403 Forbidden'')))
       [\<lparr>name = ''dev_solr'', type = ''solr'', configs = []\<rparr>])))"
proof -
  have h: "responses_of (trace (snd (script healthy_client []))) =
     responses_of (trace (snd (script
       (fake_client no_fault (fault_on ''dev_solr'' (OtherException ''403 Forbidden'')))
       [\<lparr>name = ''dev_solr'', type = ''solr'', configs = []\<rparr>])))"
    by code_simp
  show ?thesis
    using responses_determine_run [OF h] h by blast
qed


end
